theory Spec2Isabelle
  imports Complex_Main "HOL-Library.Word"
begin

section \<open>The layer chain of include/layer.h\<close>

text \<open>
  A shallow embedding of \<^verbatim>\<open>nn::layer_base\<close>, \<^verbatim>\<open>nn::input_layer\<close> and \<^verbatim>\<open>nn::layers\<close>.

  \<^item> A C++ \<^verbatim>\<open>int\<close> is a 32-bit word read with \<open>sint\<close>; a \<^verbatim>\<open>size_t\<close> is wide enough
    for every vector length that occurs (64 bits) and is a \<open>nat\<close>.
  \<^item> \<^verbatim>\<open>float_t\<close> is modelled by \<open>real\<close>: rounding, infinities and NaN are not represented.
  \<^item> A member \<^verbatim>\<open>x_\<close> of the source is the field \<open>x_m\<close> (a name cannot end in an underscore).
  \<^item> Layers live in a store from addresses to objects; a \<^verbatim>\<open>layer_base*\<close> is an
    \<open>addr option\<close>, \<open>None\<close> being the null pointer.
  \<^item> A \<^verbatim>\<open>throw\<close> is the outcome \<open>Raised\<close>, which carries the store as it is at the moment
    of the throw. Dereferencing a null or dangling pointer is undefined behaviour in C++;
    the model stops there with \<open>Invalid_access\<close>.
\<close>

subsection \<open>Data\<close>

type_synonym cint = "32 word"
type_synonym addr = nat
type_synonym ptr = "addr option"
type_synonym vec_t = "real list"

text \<open>
  The dynamic type of a layer object. \<^verbatim>\<open>input_layer\<close> is the only concrete class in the
  source; any other class has to define the pure virtual \<^verbatim>\<open>fan_in_size()\<close> and
  \<^verbatim>\<open>connection_size()\<close>, whose values are the two arguments of \<open>Other_layer\<close>.
\<close>

datatype variant = Input_layer | Other_layer cint cint

record layer_base =
  in_size_m :: cint
  out_size_m :: cint
  next_m :: ptr
  prev_m :: ptr
  output_m :: vec_t
  prev_delta_m :: vec_t
  W_m :: vec_t
  b_m :: vec_t
  Whessian_m :: vec_t
  bhessian_m :: vec_t
  prev_delta2_m :: vec_t
  dyn_type :: variant

type_synonym heap = "addr \<rightharpoonup> layer_base"

datatype failure = Dimension_mismatch | Length_error | Invalid_access

datatype ('v, 's) outcome = Raised failure 's | Returned 'v 's

subsection \<open>Size queries\<close>

text \<open>
  \<^verbatim>\<open>in_size()\<close>, \<^verbatim>\<open>out_size()\<close> and \<^verbatim>\<open>param_size()\<close> are virtual; no class of the source
  overrides them.
\<close>

definition in_size :: "layer_base \<Rightarrow> cint" where
  "in_size L = in_size_m L"

definition out_size :: "layer_base \<Rightarrow> cint" where
  "out_size L = out_size_m L"


definition fan_in_size :: "layer_base \<Rightarrow> cint" where
  "fan_in_size L = (case dyn_type L of Input_layer \<Rightarrow> 1 | Other_layer f c \<Rightarrow> f)"

definition connection_size :: "layer_base \<Rightarrow> cint" where
  "connection_size L = (case dyn_type L of Input_layer \<Rightarrow> in_size_m L | Other_layer f c \<Rightarrow> c)"

subsection \<open>Construction\<close>

text \<open>
  \<^verbatim>\<open>set_size\<close> stores the two sizes and resizes the seven vectors; \<^verbatim>\<open>resize\<close> of an
  empty vector value-initialises the new elements to 0. A negative \<^verbatim>\<open>int\<close> converts to a
  \<^verbatim>\<open>size_t\<close> above \<^verbatim>\<open>max_size()\<close> and \<^verbatim>\<open>resize\<close> throws \<^verbatim>\<open>std::length_error\<close>: the
  constructor fails and no object exists. Exhausted memory is not modelled.
\<close>

definition set_size :: "cint \<Rightarrow> cint \<Rightarrow> cint \<Rightarrow> cint \<Rightarrow> layer_base \<Rightarrow> failure + layer_base" where
  "set_size in_dim out_dim weight_dim bias_dim L =
     (if sint out_dim < 0 \<or> sint in_dim < 0 \<or> sint weight_dim < 0 \<or> sint bias_dim < 0
      then Inl Length_error
      else Inr (L\<lparr>in_size_m := in_dim, out_size_m := out_dim,
                  output_m := replicate (nat (sint out_dim)) 0,
                  prev_delta_m := replicate (nat (sint in_dim)) 0,
                  W_m := replicate (nat (sint weight_dim)) 0,
                  b_m := replicate (nat (sint bias_dim)) 0,
                  Whessian_m := replicate (nat (sint weight_dim)) 0,
                  bhessian_m := replicate (nat (sint bias_dim)) 0,
                  prev_delta2_m := replicate (nat (sint in_dim)) 0\<rparr>))"

definition new_layer_base :: "variant \<Rightarrow> cint \<Rightarrow> cint \<Rightarrow> cint \<Rightarrow> cint \<Rightarrow> failure + layer_base" where
  "new_layer_base v in_dim out_dim weight_dim bias_dim =
     set_size in_dim out_dim weight_dim bias_dim
       \<lparr>in_size_m = 0, out_size_m = 0, next_m = None, prev_m = None, output_m = [],
        prev_delta_m = [], W_m = [], b_m = [], Whessian_m = [], bhessian_m = [],
        prev_delta2_m = [], dyn_type = v\<rparr>"

definition new_input_layer :: "failure + layer_base" where
  "new_input_layer = new_layer_base Input_layer 0 0 0 0"

subsection \<open>connect\<close>

text \<open>
  \<^verbatim>\<open>this->connect(tail)\<close>. The condition short-circuits: \<^verbatim>\<open>tail\<close> is read only when
  \<^verbatim>\<open>this->out_size() != 0\<close>. After the check, \<^verbatim>\<open>next_ = tail\<close> is stored before
  \<^verbatim>\<open>tail->prev_ = this\<close> dereferences \<^verbatim>\<open>tail\<close>.
\<close>

definition deref :: "heap \<Rightarrow> ptr \<Rightarrow> (addr \<times> layer_base) option" where
  "deref h p = (case p of None \<Rightarrow> None
                | Some a \<Rightarrow> (case h a of None \<Rightarrow> None | Some L \<Rightarrow> Some (a, L)))"

definition link :: "addr \<Rightarrow> ptr \<Rightarrow> layer_base \<Rightarrow> heap \<Rightarrow> (unit, heap) outcome" where
  "link this tail A h =
     (let h1 = h(this \<mapsto> A\<lparr>next_m := tail\<rparr>)
      in case deref h1 tail of
           None \<Rightarrow> Raised Invalid_access h1
         | Some (b, B) \<Rightarrow> Returned () (h1(b \<mapsto> B\<lparr>prev_m := Some this\<rparr>)))"

definition connect :: "addr \<Rightarrow> ptr \<Rightarrow> heap \<Rightarrow> (unit, heap) outcome" where
  "connect this tail h =
     (case h this of
        None \<Rightarrow> Raised Invalid_access h
      | Some A \<Rightarrow>
          if out_size A \<noteq> 0
          then (case deref h tail of
                  None \<Rightarrow> Raised Invalid_access h
                | Some (b, B) \<Rightarrow>
                    if in_size B \<noteq> out_size A then Raised Dimension_mismatch h
                    else link this tail A h)
          else link this tail A h)"

subsection \<open>The random source\<close>

text \<open>
  Modelled from the spec: the random source behind \<^verbatim>\<open>uniform_rand\<close> (util.h, which is not
  part of the source at hand). The spec describes it as producing uniformly distributed
  reals in a caller-specified closed interval. A draw is a point of the unit interval;
  the source of randomness is the sequence of the draws still to come. The distribution
  itself is not represented.
\<close>

typedef unit_sample = "{u::real. 0 \<le> u \<and> u \<le> 1}"
  by (rule exI [of _ 0]) simp

type_synonym rand_source = "nat \<Rightarrow> unit_sample"

text \<open>
  Modelled from the spec: \<^verbatim>\<open>uniform_rand(begin, end, min, max)\<close> of util.h, which is not
  part of the source at hand. It fills the destination range, here of \<open>n\<close> elements, with
  reals of the closed interval from \<open>lo\<close> to \<open>hi\<close>: each draw is placed affinely between
  the two bounds, and \<open>n\<close> draws are consumed.
\<close>

definition uniform_rand :: "nat \<Rightarrow> real \<Rightarrow> real \<Rightarrow> rand_source \<Rightarrow> vec_t \<times> rand_source" where
  "uniform_rand n lo hi g =
     (map (\<lambda>k. lo + (hi - lo) * Rep_unit_sample (g k)) [0..<n], \<lambda>k. g (k + n))"

subsection \<open>init\_weight, reset, divide\_hessian\<close>

text \<open>
  \<^verbatim>\<open>const float_t weight_base = 0.5 / std::sqrt(fan_in_size());\<close> For a fan-in that is not
  positive the source computes an infinity or a NaN, which the reals do not have: the
  properties of the weights below are stated for a positive fan-in.
\<close>

definition weight_base :: "layer_base \<Rightarrow> real" where
  "weight_base L = 0.5 / sqrt (real_of_int (sint (fan_in_size L)))"

definition init_weight :: "layer_base \<Rightarrow> rand_source \<Rightarrow> layer_base \<times> rand_source" where
  "init_weight L g =
     (case uniform_rand (length (W_m L)) (- weight_base L) (weight_base L) g of (W', g1) \<Rightarrow>
      case uniform_rand (length (b_m L)) (- weight_base L) (weight_base L) g1 of (b', g2) \<Rightarrow>
        (L\<lparr>W_m := W', b_m := b',
           Whessian_m := replicate (length (Whessian_m L)) 0,
           bhessian_m := replicate (length (bhessian_m L)) 0\<rparr>, g2))"

text \<open>\<^verbatim>\<open>virtual void reset() { init_weight(); }\<close>; no class of the source overrides it.\<close>

definition reset :: "layer_base \<Rightarrow> rand_source \<Rightarrow> layer_base \<times> rand_source" where
  "reset L g = init_weight L g"

text \<open>
  \<^verbatim>\<open>for (size_t i = 0; i < v.size(); i++) v[i] /= denominator;\<close> with the \<^verbatim>\<open>int\<close>
  denominator already converted to \<^verbatim>\<open>float_t\<close>. Division by 0 yields an infinity or a NaN
  in the source and 0 in HOL, so the model says nothing for a zero denominator.
\<close>

function divide_loop :: "nat \<Rightarrow> real \<Rightarrow> vec_t \<Rightarrow> vec_t" where
  "divide_loop i d v = (if i < length v then divide_loop (Suc i) d (v[i := v ! i / d]) else v)"
  by pat_completeness auto
termination
  by (relation "measure (\<lambda>(i, d, v). length v - i)") auto

declare divide_loop.simps [simp del]

definition divide_hessian :: "cint \<Rightarrow> layer_base \<Rightarrow> layer_base" where
  "divide_hessian denominator L =
     (let L1 = L\<lparr>Whessian_m := divide_loop 0 (real_of_int (sint denominator)) (Whessian_m L)\<rparr>
      in L1\<lparr>bhessian_m := divide_loop 0 (real_of_int (sint denominator)) (bhessian_m L1)\<rparr>)"

subsection \<open>The input layer\<close>

text \<open>
  \<^verbatim>\<open>input_layer::forward_propagation\<close>. The call \<^verbatim>\<open>next_->forward_propagation(in)\<close> is
  virtual and the classes it can reach are not in the source: it is the parameter
  \<open>next_fp\<close>. The result is the vector the returned reference designates.
\<close>

definition forward_propagation ::
  "(addr \<Rightarrow> vec_t \<Rightarrow> heap \<Rightarrow> (vec_t, heap) outcome) \<Rightarrow> addr \<Rightarrow> vec_t \<Rightarrow> heap
     \<Rightarrow> (vec_t, heap) outcome" where
  "forward_propagation next_fp this inp h =
     (case h this of
        None \<Rightarrow> Raised Invalid_access h
      | Some L \<Rightarrow>
          (let L1 = L\<lparr>output_m := inp\<rparr>; h1 = h(this \<mapsto> L1)
           in case next_m L1 of
                Some n \<Rightarrow> next_fp n inp h1
              | None \<Rightarrow> Returned (output_m L1) h1))"

text \<open>
  \<^verbatim>\<open>input_layer::back_propagation(current_delta, l)\<close>: the updater \<^verbatim>\<open>*l\<close> is a value of
  any type \<open>'u\<close>, handed back with the store.
\<close>

definition back_propagation ::
  "addr \<Rightarrow> vec_t \<Rightarrow> 'u \<Rightarrow> heap \<Rightarrow> (vec_t, 'u \<times> heap) outcome" where
  "back_propagation this current_delta l h =
     (case h this of
        None \<Rightarrow> Raised Invalid_access (l, h)
      | Some L \<Rightarrow> Returned current_delta (l, h))"

definition back_propagation_2nd :: "addr \<Rightarrow> vec_t \<Rightarrow> heap \<Rightarrow> (vec_t, heap) outcome" where
  "back_propagation_2nd this current_delta2 h =
     (case h this of
        None \<Rightarrow> Raised Invalid_access h
      | Some L \<Rightarrow> Returned current_delta2 h)"

subsection \<open>The chain container\<close>

text \<open>
  \<^verbatim>\<open>first_\<close> is a member object of the container; the model keeps it in the store, at the
  address given to the constructor.
\<close>

record layers =
  first_m :: addr
  head_m :: ptr
  tail_m :: ptr

definition add :: "ptr \<Rightarrow> layers \<times> heap \<Rightarrow> (unit, layers \<times> heap) outcome" where
  "add new_tail s =
     (case s of (c, h) \<Rightarrow>
        (let c1 = (if head_m c = None then c\<lparr>head_m := new_tail\<rparr> else c)
         in case tail_m c1 of
              None \<Rightarrow> Returned () (c1\<lparr>tail_m := new_tail\<rparr>, h)
            | Some t \<Rightarrow>
                (case connect t new_tail h of
                   Raised e h' \<Rightarrow> Raised e (c1, h')
                 | Returned u h' \<Rightarrow> Returned () (c1\<lparr>tail_m := new_tail\<rparr>, h'))))"

definition new_layers :: "addr \<Rightarrow> heap \<Rightarrow> (unit, layers \<times> heap) outcome" where
  "new_layers p h =
     (case new_input_layer of
        Inl e \<Rightarrow> Raised e (\<lparr>first_m = p, head_m = None, tail_m = None\<rparr>, h)
      | Inr S \<Rightarrow> add (Some p) (\<lparr>first_m = p, head_m = None, tail_m = None\<rparr>, h(p \<mapsto> S)))"

definition empty :: "layers \<Rightarrow> bool" where
  "empty c = (head_m c = None)"

text \<open>One \<^verbatim>\<open>l->reset()\<close> on the object at \<open>a\<close>.\<close>

definition reset_at :: "addr \<Rightarrow> heap \<times> rand_source \<Rightarrow> (unit, heap \<times> rand_source) outcome" where
  "reset_at a s =
     (case fst s a of
        None \<Rightarrow> Raised Invalid_access s
      | Some L \<Rightarrow> (case reset L (snd s) of (L', g') \<Rightarrow> Returned () ((fst s)(a \<mapsto> L'), g')))"

text \<open>
  \<^verbatim>\<open>while(l) { l->reset(); l = l->next_; }\<close>. The loop follows the \<^verbatim>\<open>next_\<close> links for as
  long as they are not null, so it need not end: \<open>None\<close> is the run that never returns.
  The source returns nothing; the value returned here is the list of the objects on which
  \<^verbatim>\<open>reset()\<close> has been called, in the order of the calls, kept in \<open>calls\<close>.
\<close>

partial_function (option) reset_loop ::
  "ptr \<Rightarrow> addr list \<Rightarrow> heap \<times> rand_source
     \<Rightarrow> (addr list, heap \<times> rand_source) outcome option" where
  "reset_loop l calls s =
     (case l of
        None \<Rightarrow> Some (Returned calls s)
      | Some a \<Rightarrow>
          (case reset_at a s of
             Raised e s' \<Rightarrow> Some (Raised e s')
           | Returned u s' \<Rightarrow>
               (case fst s' a of
                  None \<Rightarrow> Some (Raised Invalid_access s')
                | Some L \<Rightarrow> reset_loop (next_m L) (calls @ [a]) s')))"

definition layers_reset ::
  "layers \<Rightarrow> heap \<times> rand_source \<Rightarrow> (addr list, heap \<times> rand_source) outcome option" where
  "layers_reset c s = reset_loop (head_m c) [] s"

subsection \<open>Chains in the store\<close>

text \<open>
  \<open>layer_chain h p as\<close>: starting at \<open>p\<close> and following \<^verbatim>\<open>next_\<close>, the store holds exactly the
  layers at the addresses \<open>as\<close>, in this order, and the last one has a null \<^verbatim>\<open>next_\<close>.
\<close>

fun layer_chain :: "heap \<Rightarrow> ptr \<Rightarrow> addr list \<Rightarrow> bool" where
  "layer_chain h p [] = (p = None)"
| "layer_chain h p (a # as) =
     (p = Some a \<and> (case h a of None \<Rightarrow> False | Some L \<Rightarrow> layer_chain h (next_m L) as))"

text \<open>
  \<open>source_at h as i g\<close>: what is left of the random source \<open>g\<close> once \<open>init_weight\<close> has
  drawn from it for the first \<open>i\<close> layers of \<open>as\<close>, one after the other, the layers being
  those the store \<open>h\<close> holds.
\<close>

fun source_at :: "heap \<Rightarrow> addr list \<Rightarrow> nat \<Rightarrow> rand_source \<Rightarrow> rand_source" where
  "source_at h as 0 g = g"
| "source_at h [] (Suc i) g = g"
| "source_at h (a # as) (Suc i) g =
     source_at h as i (case h a of None \<Rightarrow> g | Some L \<Rightarrow> snd (init_weight L g))"

subsection \<open>The size equalities\<close>




subsection \<open>A concrete network\<close>

text \<open>
  The layers of the end-to-end scenario: the sentinel, L1 (in 3, out 2, 6 weights,
  2 biases) and L2 (in 2, out 1, 2 weights, 1 bias), as their constructors leave them,
  placed at the addresses 0, 1 and 2 of a store.
\<close>

definition sentinel :: layer_base where
  "sentinel = projr new_input_layer"

definition L1 :: layer_base where
  "L1 = projr (new_layer_base (Other_layer 3 6) 3 2 6 2)"

definition L2 :: layer_base where
  "L2 = projr (new_layer_base (Other_layer 2 2) 2 1 2 1)"

definition net :: heap where
  "net = [0 \<mapsto> sentinel, 1 \<mapsto> L1, 2 \<mapsto> L2]"

text \<open>
  The container and the store after \<^verbatim>\<open>layers()\<close>, \<^verbatim>\<open>add(L1)\<close> and \<^verbatim>\<open>add(L2)\<close>.
\<close>

definition net_chain :: "layers \<times> heap" where
  "net_chain = (\<lparr>first_m = 0, head_m = Some 0, tail_m = Some 2\<rparr>,
                [0 \<mapsto> sentinel\<lparr>next_m := Some 1\<rparr>,
                 1 \<mapsto> L1\<lparr>next_m := Some 2, prev_m := Some 0\<rparr>,
                 2 \<mapsto> L2\<lparr>prev_m := Some 1\<rparr>])"


text \<open>
  A successor propagation for a layer that has no successor: it is never called, and
  would fail if it were.
\<close>

definition no_next_fp :: "addr \<Rightarrow> vec_t \<Rightarrow> heap \<Rightarrow> (vec_t, heap) outcome" where
  "no_next_fp n v h = Raised Invalid_access h"

text \<open>A random source whose draws alternate between the two ends of the unit interval.\<close>

definition ends :: rand_source where
  "ends k = (if even k then Abs_unit_sample 0 else Abs_unit_sample 1)"

lemmas net_defs =
  net_def sentinel_def L1_def L2_def new_input_layer_def new_layer_base_def set_size_def

section \<open>Properties\<close>

subsection \<open>The concrete network is what the constructor and add build\<close>

lemma net_built_1:
  "new_layers 0 [1 \<mapsto> L1, 2 \<mapsto> L2]
     = Returned () (\<lparr>first_m = 0, head_m = Some 0, tail_m = Some 0\<rparr>, net)"
proof -
  have n: "new_input_layer = Inr sentinel"
    by (simp add: net_defs)
  show ?thesis
    unfolding new_layers_def n by (simp add: add_def, rule ext, simp add: net_def)
qed

lemma net_built_2:
  "add (Some 1) (\<lparr>first_m = 0, head_m = Some 0, tail_m = Some 0\<rparr>, net)
     = Returned () (\<lparr>first_m = 0, head_m = Some 0, tail_m = Some 1\<rparr>,
                    net(0 \<mapsto> sentinel\<lparr>next_m := Some 1\<rparr>, 1 \<mapsto> L1\<lparr>prev_m := Some 0\<rparr>))"
proof -
  have "connect 0 (Some 1) net
     = Returned () (net(0 \<mapsto> sentinel\<lparr>next_m := Some 1\<rparr>, 1 \<mapsto> L1\<lparr>prev_m := Some 0\<rparr>))"
    by (simp add: connect_def link_def deref_def net_defs in_size_def out_size_def)
  then show ?thesis by (simp add: add_def)
qed

lemma net_built_3:
  "add (Some 2) (\<lparr>first_m = 0, head_m = Some 0, tail_m = Some 1\<rparr>,
                    net(0 \<mapsto> sentinel\<lparr>next_m := Some 1\<rparr>, 1 \<mapsto> L1\<lparr>prev_m := Some 0\<rparr>))
     = Returned () net_chain"
proof -
  have "connect 1 (Some 2) (net(0 \<mapsto> sentinel\<lparr>next_m := Some 1\<rparr>, 1 \<mapsto> L1\<lparr>prev_m := Some 0\<rparr>))
     = Returned () (snd net_chain)"
    by (simp add: connect_def link_def deref_def net_def L1_def L2_def new_layer_base_def
          set_size_def in_size_def out_size_def net_chain_def)
  then show ?thesis by (simp add: add_def net_chain_def)
qed

subsection \<open>connect\<close>

lemma link_valid:
  assumes "h b = Some B"
  shows "\<exists>h'. link a (Some b) A h = Returned () h'
           \<and> (\<exists>A'. h' a = Some A' \<and> next_m A' = Some b)
           \<and> (\<exists>B'. h' b = Some B' \<and> prev_m B' = Some a)"
  using assms by (cases "a = b") (simp_all add: link_def deref_def)

text \<open>
  C1. For layers A (at address \<open>a\<close>) and B (at address \<open>b\<close>, possibly the same object),
  \<open>A.connect(B)\<close> raises the dimension mismatch exactly when \<open>A.out_size \<noteq> 0\<close> and
  \<open>B.in_size \<noteq> A.out_size\<close>. When it raises, the store is the one it was called on, so
  no link has been written; when it does not raise, it returns, A's \<open>next_m\<close> is B and
  B's \<open>prev_m\<close> is A.
\<close>

theorem connect_raises_iff_mismatch:
  assumes "h a = Some A" and "h b = Some B"
  shows "((\<exists>s. connect a (Some b) h = Raised Dimension_mismatch s)
            \<longleftrightarrow> out_size A \<noteq> 0 \<and> in_size B \<noteq> out_size A)
       \<and> (\<forall>e s. connect a (Some b) h = Raised e s \<longrightarrow> e = Dimension_mismatch \<and> s = h)
       \<and> (\<not> (out_size A \<noteq> 0 \<and> in_size B \<noteq> out_size A) \<longrightarrow>
            (\<exists>h' A' B'. connect a (Some b) h = Returned () h'
               \<and> h' a = Some A' \<and> next_m A' = Some b
               \<and> h' b = Some B' \<and> prev_m B' = Some a))"
proof -
  obtain h' where l: "link a (Some b) A h = Returned () h'"
    and n: "\<exists>A'. h' a = Some A' \<and> next_m A' = Some b"
    and p: "\<exists>B'. h' b = Some B' \<and> prev_m B' = Some a"
    using link_valid [of h b B a A] assms(2) by blast
  show ?thesis
  proof (cases "out_size A \<noteq> 0 \<and> in_size B \<noteq> out_size A")
    case True
    then have "connect a (Some b) h = Raised Dimension_mismatch h"
      using assms by (simp add: connect_def deref_def)
    then show ?thesis using True by simp
  next
    case False
    then have "connect a (Some b) h = Returned () h'"
      using assms l by (auto simp: connect_def deref_def)
    then show ?thesis using False n p by auto
  qed
qed

theorem connect_raises_iff_mismatch_witness:
  "connect 2 (Some 1) net = Raised Dimension_mismatch net
   \<and> (\<exists>h' A' B'. connect 1 (Some 2) net = Returned () h'
          \<and> h' 1 = Some A' \<and> next_m A' = Some 2
          \<and> h' 2 = Some B' \<and> prev_m B' = Some 1)"
proof -
  have a: "net 1 = Some L1" and b: "net 2 = Some L2"
    by (simp_all add: net_def)
  have "out_size L2 \<noteq> 0 \<and> in_size L1 \<noteq> out_size L2"
    by (simp add: net_defs in_size_def out_size_def)
  moreover have "\<not> (out_size L1 \<noteq> 0 \<and> in_size L2 \<noteq> out_size L1)"
    by (simp add: net_defs in_size_def out_size_def)
  ultimately show ?thesis
    using connect_raises_iff_mismatch [OF b a] connect_raises_iff_mismatch [OF a b]
    by blast
qed


text \<open>
  C2, as stated: whenever \<open>A.connect(B)\<close> succeeds, \<open>A.out_size = B.in_size\<close> holds
  afterwards, and a sentinel with \<open>out_size = 0\<close> has its size fixed by the connection.
  This fails: connecting the sentinel (out size 0) to L1 (in size 3) succeeds and leaves
  the sentinel's out size at 0.
\<close>

theorem connect_sizes_counterexample:
  "connect 0 (Some 1) net
     = Returned () (net(0 \<mapsto> sentinel\<lparr>next_m := Some 1\<rparr>, 1 \<mapsto> L1\<lparr>prev_m := Some 0\<rparr>))
   \<and> out_size (sentinel\<lparr>next_m := Some 1\<rparr>) \<noteq> in_size (L1\<lparr>prev_m := Some 0\<rparr>)"
  by (simp add: connect_def link_def deref_def net_defs in_size_def out_size_def)

lemma connect_returned:
  assumes "connect a p h = Returned u h'"
  shows "\<exists>A b B. h a = Some A \<and> p = Some b \<and> h b = Some B
           \<and> (out_size A = 0 \<or> in_size B = out_size A)
           \<and> h' = (h(a \<mapsto> A\<lparr>next_m := p\<rparr>))
                    (b \<mapsto> (if b = a then A\<lparr>next_m := p\<rparr> else B)\<lparr>prev_m := Some a\<rparr>)"
  using assms
  by (auto simp: connect_def link_def deref_def Let_def split: option.splits if_splits)

text \<open>
  C2, amended: whenever \<open>A.connect(B)\<close> succeeds, B's \<open>prev_m\<close> is A and A's \<open>next_m\<close> is
  B afterwards, the sizes of both layers are what they were before the call, and
  \<open>A.out_size\<close> is either 0 or equal to \<open>B.in_size\<close>: a layer with out size 0 is
  connected without a check and keeps out size 0.
\<close>

theorem connect_success_links:
  assumes "connect a (Some b) h = Returned u h'"
  shows "\<exists>A B A' B'. h a = Some A \<and> h b = Some B \<and> h' a = Some A' \<and> h' b = Some B'
           \<and> next_m A' = Some b \<and> prev_m B' = Some a
           \<and> out_size A' = out_size A \<and> in_size A' = in_size A
           \<and> out_size B' = out_size B \<and> in_size B' = in_size B
           \<and> (out_size A' = 0 \<or> out_size A' = in_size B')"
proof -
  obtain A B where A: "h a = Some A" and B: "h b = Some B"
    and ok: "out_size A = 0 \<or> in_size B = out_size A"
    and h': "h' = (h(a \<mapsto> A\<lparr>next_m := Some b\<rparr>))
                    (b \<mapsto> (if b = a then A\<lparr>next_m := Some b\<rparr> else B)\<lparr>prev_m := Some a\<rparr>)"
    using connect_returned [OF assms] by auto
  show ?thesis
  proof (cases "b = a")
    case True
    then show ?thesis using A B ok h' by (auto simp: in_size_def out_size_def)
  next
    case False
    then show ?thesis using A B ok h' by (auto simp: in_size_def out_size_def)
  qed
qed

theorem connect_success_links_witness:
  "\<exists>A B A' B'. net 0 = Some A \<and> net 1 = Some B
      \<and> (net(0 \<mapsto> sentinel\<lparr>next_m := Some 1\<rparr>, 1 \<mapsto> L1\<lparr>prev_m := Some 0\<rparr>)) 0 = Some A'
      \<and> (net(0 \<mapsto> sentinel\<lparr>next_m := Some 1\<rparr>, 1 \<mapsto> L1\<lparr>prev_m := Some 0\<rparr>)) 1 = Some B'
      \<and> next_m A' = Some 1 \<and> prev_m B' = Some 0
      \<and> out_size A' = out_size A \<and> in_size A' = in_size A
      \<and> out_size B' = out_size B \<and> in_size B' = in_size B
      \<and> (out_size A' = 0 \<or> out_size A' = in_size B')"
proof -
  have "connect 0 (Some 1) net
     = Returned () (net(0 \<mapsto> sentinel\<lparr>next_m := Some 1\<rparr>, 1 \<mapsto> L1\<lparr>prev_m := Some 0\<rparr>))"
    by (simp add: connect_def link_def deref_def net_defs in_size_def out_size_def)
  then show ?thesis by (rule connect_success_links)
qed

subsection \<open>init\_weight\<close>

lemma uniform_rand_bounds:
  assumes "lo \<le> hi" and "x \<in> set (fst (uniform_rand n lo hi g))"
  shows "lo \<le> x \<and> x \<le> hi"
proof -
  obtain k where x: "x = lo + (hi - lo) * Rep_unit_sample (g k)"
    using assms(2) by (auto simp: uniform_rand_def)
  have u: "0 \<le> Rep_unit_sample (g k)" "Rep_unit_sample (g k) \<le> 1"
    using Rep_unit_sample [of "g k"] by simp_all
  have "0 \<le> (hi - lo) * Rep_unit_sample (g k)"
    using assms(1) u(1) by simp
  moreover have "(hi - lo) * Rep_unit_sample (g k) \<le> (hi - lo) * 1"
    using assms(1) u(2) by (intro mult_left_mono) simp_all
  ultimately show ?thesis using x by simp
qed

lemma weight_base_pos:
  assumes "0 < sint (fan_in_size L)"
  shows "0 < weight_base L"
proof -
  have "0 < real_of_int (sint (fan_in_size L))"
    using assms by (simp only: of_int_0_less_iff)
  then have "0 < sqrt (real_of_int (sint (fan_in_size L)))"
    by (simp only: real_sqrt_gt_0_iff)
  then show ?thesis
    unfolding weight_base_def by (intro divide_pos_pos) simp_all
qed

lemma init_weight_fields:
  "W_m (fst (init_weight L g))
     = fst (uniform_rand (length (W_m L)) (- weight_base L) (weight_base L) g)"
  "b_m (fst (init_weight L g))
     = fst (uniform_rand (length (b_m L)) (- weight_base L) (weight_base L)
              (snd (uniform_rand (length (W_m L)) (- weight_base L) (weight_base L) g)))"
  "Whessian_m (fst (init_weight L g)) = replicate (length (Whessian_m L)) 0"
  "bhessian_m (fst (init_weight L g)) = replicate (length (bhessian_m L)) 0"
  by (simp_all add: init_weight_def split: prod.splits)

lemma init_weight_frame:
  "in_size_m (fst (init_weight L g)) = in_size_m L"
  "out_size_m (fst (init_weight L g)) = out_size_m L"
  "next_m (fst (init_weight L g)) = next_m L"
  "prev_m (fst (init_weight L g)) = prev_m L"
  "output_m (fst (init_weight L g)) = output_m L"
  "prev_delta_m (fst (init_weight L g)) = prev_delta_m L"
  "prev_delta2_m (fst (init_weight L g)) = prev_delta2_m L"
  "dyn_type (fst (init_weight L g)) = dyn_type L"
  by (simp_all add: init_weight_def split: prod.splits)


text \<open>
  C3. For a layer with positive \<open>fan_in_size\<close>, whatever its state and whatever the
  random source, after \<open>init_weight\<close> every element of the weights and of the biases
  lies in \<open>[-w, w]\<close> for \<open>w = 0.5 / sqrt (fan_in_size)\<close>, and every element of the two
  Hessian vectors is 0. The call overwrites: the four vectors it leaves depend on the
  lengths, the fan-in and the random source only, not on what the vectors held.
\<close>

theorem init_weight_range:
  assumes "0 < sint (fan_in_size L)"
  shows "(\<forall>x \<in> set (W_m (fst (init_weight L g))).
            - (0.5 / sqrt (real_of_int (sint (fan_in_size L)))) \<le> x
            \<and> x \<le> 0.5 / sqrt (real_of_int (sint (fan_in_size L))))
       \<and> (\<forall>x \<in> set (b_m (fst (init_weight L g))).
            - (0.5 / sqrt (real_of_int (sint (fan_in_size L)))) \<le> x
            \<and> x \<le> 0.5 / sqrt (real_of_int (sint (fan_in_size L))))
       \<and> (\<forall>x \<in> set (Whessian_m (fst (init_weight L g))). x = 0)
       \<and> (\<forall>x \<in> set (bhessian_m (fst (init_weight L g))). x = 0)
       \<and> (\<forall>L'. length (W_m L') = length (W_m L) \<and> length (b_m L') = length (b_m L)
              \<and> length (Whessian_m L') = length (Whessian_m L)
              \<and> length (bhessian_m L') = length (bhessian_m L)
              \<and> fan_in_size L' = fan_in_size L
            \<longrightarrow> W_m (fst (init_weight L' g)) = W_m (fst (init_weight L g))
              \<and> b_m (fst (init_weight L' g)) = b_m (fst (init_weight L g))
              \<and> Whessian_m (fst (init_weight L' g)) = Whessian_m (fst (init_weight L g))
              \<and> bhessian_m (fst (init_weight L' g)) = bhessian_m (fst (init_weight L g)))"
proof -
  have w: "- weight_base L \<le> weight_base L"
    using weight_base_pos [OF assms] by simp
  have wb: "weight_base L = 0.5 / sqrt (real_of_int (sint (fan_in_size L)))"
    by (simp add: weight_base_def)
  have W: "\<forall>x \<in> set (W_m (fst (init_weight L g))). - weight_base L \<le> x \<and> x \<le> weight_base L"
    using uniform_rand_bounds [OF w] by (simp add: init_weight_fields)
  have b: "\<forall>x \<in> set (b_m (fst (init_weight L g))). - weight_base L \<le> x \<and> x \<le> weight_base L"
    using uniform_rand_bounds [OF w] by (simp add: init_weight_fields)
  have H: "\<forall>x \<in> set (Whessian_m (fst (init_weight L g))). x = 0"
    "\<forall>x \<in> set (bhessian_m (fst (init_weight L g))). x = 0"
    by (simp_all add: init_weight_fields)
  have O: "W_m (fst (init_weight L' g)) = W_m (fst (init_weight L g))
              \<and> b_m (fst (init_weight L' g)) = b_m (fst (init_weight L g))
              \<and> Whessian_m (fst (init_weight L' g)) = Whessian_m (fst (init_weight L g))
              \<and> bhessian_m (fst (init_weight L' g)) = bhessian_m (fst (init_weight L g))"
    if "length (W_m L') = length (W_m L)" "length (b_m L') = length (b_m L)"
       "length (Whessian_m L') = length (Whessian_m L)"
       "length (bhessian_m L') = length (bhessian_m L)" "fan_in_size L' = fan_in_size L" for L'
    using that by (simp add: init_weight_fields weight_base_def)
  show ?thesis using W b H O unfolding wb by blast
qed

theorem init_weight_range_witness:
  "0 < sint (fan_in_size L2)
   \<and> W_m (fst (init_weight L2 ends)) = [- (1 / (2 * sqrt 2)), 1 / (2 * sqrt 2)]
   \<and> - (0.5 / sqrt (real_of_int (sint (fan_in_size L2)))) \<le> - (1 / (2 * sqrt 2))
   \<and> 1 / (2 * sqrt 2) \<le> 0.5 / sqrt (real_of_int (sint (fan_in_size L2)))
   \<and> Whessian_m (fst (init_weight L2 ends)) = [0, 0]"
proof -
  have p: "0 < sint (fan_in_size L2)"
    by (simp add: fan_in_size_def net_defs)
  have W: "W_m (fst (init_weight L2 ends)) = [- (1 / (2 * sqrt 2)), 1 / (2 * sqrt 2)]"
    by (simp add: init_weight_def uniform_rand_def net_defs ends_def weight_base_def
          fan_in_size_def Abs_unit_sample_inverse upt_rec)
  have H: "Whessian_m (fst (init_weight L2 ends)) = [0, 0]"
    by (simp add: init_weight_fields net_defs numeral_2_eq_2)
  have "\<forall>x \<in> set (W_m (fst (init_weight L2 ends))).
          - (0.5 / sqrt (real_of_int (sint (fan_in_size L2)))) \<le> x
          \<and> x \<le> 0.5 / sqrt (real_of_int (sint (fan_in_size L2)))"
    using init_weight_range [OF p, of ends] by blast
  then have "- (0.5 / sqrt (real_of_int (sint (fan_in_size L2)))) \<le> - (1 / (2 * sqrt 2))
      \<and> 1 / (2 * sqrt 2) \<le> 0.5 / sqrt (real_of_int (sint (fan_in_size L2)))"
    unfolding W by simp
  then show ?thesis using p W H by blast
qed

subsection \<open>The input layer\<close>

text \<open>
  C4. On a sentinel input layer with no successor, \<open>forward_propagation(v)\<close> returns \<open>v\<close>
  and leaves a copy of \<open>v\<close> in \<open>output_m\<close>, whatever the successor's propagation would
  be; \<open>back_propagation(d, updater)\<close> returns \<open>d\<close> and hands the updater and the store
  back as they were, so the updater has not been invoked; \<open>back_propagation_2nd(d2)\<close>
  returns \<open>d2\<close> and leaves the store as it was.
\<close>

theorem standalone_sentinel_passes_through:
  assumes "h a = Some L" and "dyn_type L = Input_layer" and "next_m L = None"
  shows "forward_propagation next_fp a v h = Returned v (h(a \<mapsto> L\<lparr>output_m := v\<rparr>))
       \<and> back_propagation a d l h = Returned d (l, h)
       \<and> back_propagation_2nd a d2 h = Returned d2 h"
  using assms
  by (simp add: forward_propagation_def back_propagation_def back_propagation_2nd_def)

theorem standalone_sentinel_passes_through_witness:
  "forward_propagation no_next_fp 0 [1, 2, 3] net
      = Returned [1, 2, 3] (net(0 \<mapsto> sentinel\<lparr>output_m := [1, 2, 3]\<rparr>))
   \<and> back_propagation 0 [4, 5] (7::nat) net = Returned [4, 5] (7, net)
   \<and> back_propagation_2nd 0 [6] net = Returned [6] net"
proof -
  have "net 0 = Some sentinel" "dyn_type sentinel = Input_layer" "next_m sentinel = None"
    by (simp_all add: net_defs)
  then show ?thesis by (rule standalone_sentinel_passes_through)
qed

subsection \<open>layers::reset\<close>

lemma chain_next_cong:
  assumes "\<And>x. map_option next_m (h' x) = map_option next_m (h x)"
  shows "layer_chain h' p as = layer_chain h p as"
proof (induction as arbitrary: p)
  case Nil
  show ?case by simp
next
  case (Cons a as)
  show ?case
  proof (cases "h a")
    case None
    then have "h' a = None" using assms [of a] by simp
    then show ?thesis using None by simp
  next
    case (Some L)
    then obtain L' where "h' a = Some L'" "next_m L' = next_m L"
      using assms [of a] by auto
    then show ?thesis using Some Cons.IH by simp
  qed
qed

lemma reset_at_valid:
  assumes "h a = Some L"
  shows "reset_at a (h, g) = Returned () (h(a \<mapsto> fst (init_weight L g)), snd (init_weight L g))"
  using assms by (simp add: reset_at_def reset_def split: prod.splits)

lemma chain_unique: "layer_chain h p as \<Longrightarrow> layer_chain h p bs \<Longrightarrow> as = bs"
proof (induction as arbitrary: p bs)
  case Nil
  then show ?case by (cases bs) simp_all
next
  case (Cons a as)
  then show ?case by (cases bs) (auto split: option.splits)
qed

lemma chain_suffix: "layer_chain h p (as @ bs) \<Longrightarrow> \<exists>q. layer_chain h q bs"
  by (induction as arbitrary: p) (auto split: option.splits)

lemma chain_distinct: "layer_chain h p as \<Longrightarrow> distinct as"
proof (induction as arbitrary: p)
  case Nil
  show ?case by simp
next
  case (Cons a as)
  from Cons.prems obtain L where L: "h a = Some L" and c: "layer_chain h (next_m L) as"
    by (auto split: option.splits)
  have "a \<notin> set as"
  proof
    assume "a \<in> set as"
    then obtain xs ys where as: "as = xs @ a # ys"
      by (auto dest: split_list)
    then obtain q where "layer_chain h q (a # ys)"
      using c chain_suffix [of h "next_m L" xs "a # ys"] by auto
    then have "layer_chain h (Some a) (a # ys)" by simp
    moreover have "layer_chain h (Some a) (a # as)" using L c by simp
    ultimately have "a # ys = a # as" by (rule chain_unique)
    then show False using as by simp
  qed
  then show ?case using Cons.IH [OF c] by simp
qed

lemma source_at_cong:
  assumes "\<And>x. x \<in> set as \<Longrightarrow> h' x = h x"
  shows "source_at h' as i g = source_at h as i g"
  using assms
proof (induction h as i g rule: source_at.induct)
  case (3 h a as i g)
  then show ?case by simp
qed simp_all

lemma reset_loop_chain:
  assumes "layer_chain h p as"
  shows "\<exists>h'. reset_loop p calls (h, g)
                 = Some (Returned (calls @ as) (h', source_at h as (length as) g))
            \<and> (\<forall>x. x \<notin> set as \<longrightarrow> h' x = h x)
            \<and> (\<forall>i < length as. \<exists>L. h (as ! i) = Some L
                   \<and> h' (as ! i) = Some (fst (init_weight L (source_at h as i g))))"
  using assms
proof (induction as arbitrary: p h g calls)
  case Nil
  then show ?case by (simp add: reset_loop.simps)
next
  case (Cons a as)
  from Cons.prems obtain L where p: "p = Some a" and L: "h a = Some L"
    and c: "layer_chain h (next_m L) as"
    by (auto split: option.splits)
  have na: "a \<notin> set as"
    using chain_distinct [OF Cons.prems] by simp
  define h1 where "h1 = h(a \<mapsto> fst (init_weight L g))"
  define g1 where "g1 = snd (init_weight L g)"
  have r: "reset_at a (h, g) = Returned () (h1, g1)"
    using reset_at_valid [of h a L g] L by (simp add: h1_def g1_def)
  have "\<And>x. map_option next_m (h1 x) = map_option next_m (h x)"
    using L by (simp add: h1_def init_weight_frame)
  then have "layer_chain h1 (next_m L) as"
    using c chain_next_cong [of h1 h] by simp
  then obtain h' where
    run: "reset_loop (next_m L) (calls @ [a]) (h1, g1)
            = Some (Returned ((calls @ [a]) @ as) (h', source_at h1 as (length as) g1))"
    and out: "\<forall>x. x \<notin> set as \<longrightarrow> h' x = h1 x"
    and ins: "\<forall>i < length as. \<exists>K. h1 (as ! i) = Some K
                 \<and> h' (as ! i) = Some (fst (init_weight K (source_at h1 as i g1)))"
    using Cons.IH [of h1 "next_m L" "calls @ [a]" g1] by blast
  have same: "source_at h1 as i g1 = source_at h as i g1" for i
    using na by (intro source_at_cong) (auto simp: h1_def)
  have step: "source_at h (a # as) (Suc i) g = source_at h as i g1" for i
    using L by (simp add: g1_def)
  have 1: "reset_loop p calls (h, g)
             = Some (Returned (calls @ a # as) (h', source_at h (a # as) (length (a # as)) g))"
  proof -
    have "reset_loop p calls (h, g) = reset_loop (next_m L) (calls @ [a]) (h1, g1)"
      using p r by (subst reset_loop.simps) (simp add: h1_def init_weight_frame)
    then show ?thesis using run same step by simp
  qed
  have 2: "\<forall>x. x \<notin> set (a # as) \<longrightarrow> h' x = h x"
    using out by (simp add: h1_def)
  have 3: "\<exists>K. h ((a # as) ! i) = Some K
              \<and> h' ((a # as) ! i) = Some (fst (init_weight K (source_at h (a # as) i g)))"
    if "i < length (a # as)" for i
  proof (cases i)
    case 0
    then show ?thesis using L out na by (simp add: h1_def)
  next
    case (Suc j)
    then have j: "j < length as" using that by simp
    then obtain K where "h1 (as ! j) = Some K"
      and "h' (as ! j) = Some (fst (init_weight K (source_at h1 as j g1)))"
      using ins by blast
    moreover have "as ! j \<noteq> a" using na j by (metis nth_mem)
    ultimately show ?thesis using Suc same step by (simp add: h1_def)
  qed
  show ?case using 1 2 3 by blast
qed

text \<open>
  C5. On a chain of N layers (the layers at \<open>as\<close>, from the head to the tail),
  \<open>layers::reset()\<close> returns and the calls of \<open>reset()\<close> it has made are exactly \<open>as\<close>,
  in this order, no layer twice. In the store it leaves, the i-th layer of the chain is
  what \<open>reset()\<close> makes of that layer as it was before the call, with the random source
  as the resets of the i layers before it have left it, and this \<open>reset()\<close> is
  \<open>init_weight()\<close>; every object outside the chain is as it was; the random source left
  is the one after all N resets. This holds for every N.
\<close>

theorem layers_reset_visits_chain:
  assumes "layer_chain h (head_m c) as"
  shows "\<exists>h'. layers_reset c (h, g) = Some (Returned as (h', source_at h as (length as) g))
            \<and> distinct as
            \<and> (\<forall>i < length as. \<exists>L. h (as ! i) = Some L
                   \<and> h' (as ! i) = Some (fst (reset L (source_at h as i g)))
                   \<and> reset L (source_at h as i g) = init_weight L (source_at h as i g))
            \<and> (\<forall>x. x \<notin> set as \<longrightarrow> h' x = h x)"
proof -
  obtain h' where "reset_loop (head_m c) [] (h, g)
                     = Some (Returned ([] @ as) (h', source_at h as (length as) g))"
    and "\<forall>x. x \<notin> set as \<longrightarrow> h' x = h x"
    and "\<forall>i < length as. \<exists>L. h (as ! i) = Some L
            \<and> h' (as ! i) = Some (fst (init_weight L (source_at h as i g)))"
    using reset_loop_chain [OF assms, of "[]" g] by blast
  then show ?thesis
    using chain_distinct [OF assms] by (intro exI [of _ h']) (simp add: layers_reset_def reset_def)
qed

lemma draws_ends: "Rep_unit_sample (ends k) = (if even k then 0 else 1)"
  by (simp add: ends_def Abs_unit_sample_inverse)

theorem layers_reset_visits_chain_witness:
  "\<exists>h'. layers_reset (fst net_chain) (snd net_chain, ends)
           = Some (Returned [0, 1, 2] (h', \<lambda>k. ends (k + 11)))
      \<and> h' 0 = Some (sentinel\<lparr>next_m := Some 1\<rparr>)
      \<and> map_option W_m (h' 2) = Some [- (1 / (2 * sqrt 2)), 1 / (2 * sqrt 2)]
      \<and> map_option b_m (h' 2) = Some [- (1 / (2 * sqrt 2))]
      \<and> map_option Whessian_m (h' 2) = Some [0, 0]"
proof -
  have "layer_chain (snd net_chain) (head_m (fst net_chain)) [0, 1, 2]"
    by (simp add: net_chain_def net_defs)
  then obtain h' where
    run: "layers_reset (fst net_chain) (snd net_chain, ends)
           = Some (Returned [0, 1, 2] (h', source_at (snd net_chain) [0, 1, 2] (length [0, 1, 2 :: addr]) ends))"
    and each: "\<forall>i < length [0, 1, 2 :: addr]. \<exists>L. snd net_chain ([0, 1, 2] ! i) = Some L
                   \<and> h' ([0, 1, 2] ! i) = Some (fst (reset L (source_at (snd net_chain) [0, 1, 2] i ends)))
                   \<and> reset L (source_at (snd net_chain) [0, 1, 2] i ends)
                       = init_weight L (source_at (snd net_chain) [0, 1, 2] i ends)"
    using layers_reset_visits_chain [of "snd net_chain" "fst net_chain" "[0, 1, 2]" ends]
    by blast
  have 0: "h' 0 = Some (fst (init_weight (sentinel\<lparr>next_m := Some 1\<rparr>) ends))"
    using each [rule_format, of 0] by (simp add: net_chain_def)
  have 2: "h' 2 = Some (fst (init_weight (L2\<lparr>prev_m := Some 1\<rparr>)
                               (source_at (snd net_chain) [0, 1, 2] 2 ends)))"
    using each [rule_format, of 2] by (simp add: net_chain_def)
  have s2: "source_at (snd net_chain) [0, 1, 2] 2 ends = (\<lambda>k. ends (k + 8))"
    by (simp add: net_chain_def numeral_2_eq_2 init_weight_def uniform_rand_def net_defs add.commute add.left_commute)
  have s3: "source_at (snd net_chain) [0, 1, 2] (length [0, 1, 2 :: addr]) ends
              = (\<lambda>k. ends (k + 11))"
    by (simp add: net_chain_def numeral_3_eq_3 init_weight_def uniform_rand_def net_defs
          add.commute add.left_commute)
  have a: "h' 0 = Some (sentinel\<lparr>next_m := Some 1\<rparr>)"
    unfolding 0 by (simp add: init_weight_def uniform_rand_def net_defs)
  have b: "map_option W_m (h' 2) = Some [- (1 / (2 * sqrt 2)), 1 / (2 * sqrt 2)]"
    "map_option b_m (h' 2) = Some [- (1 / (2 * sqrt 2))]"
    unfolding 2 s2
    by (simp_all add: init_weight_def uniform_rand_def net_defs draws_ends weight_base_def
          fan_in_size_def upt_rec)
  have H: "map_option Whessian_m (h' 2) = Some [0, 0]"
    unfolding 2 by (simp add: init_weight_fields net_defs numeral_2_eq_2)
  from run [unfolded s3] a b H show ?thesis by blast
qed

subsection \<open>divide\_hessian\<close>

lemma divide_loop_take_drop:
  "i \<le> length v \<Longrightarrow> divide_loop i d v = take i v @ map (\<lambda>x. x / d) (drop i v)"
proof (induction i d v rule: divide_loop.induct)
  case (1 i d v)
  show ?case
  proof (cases "i < length v")
    case True
    have "divide_loop i d v = divide_loop (Suc i) d (v[i := v ! i / d])"
      using True by (subst divide_loop.simps) simp
    also have "\<dots> = take (Suc i) (v[i := v ! i / d]) @ map (\<lambda>x. x / d) (drop (Suc i) (v[i := v ! i / d]))"
      using "1.IH" [OF True] True by simp
    also have "\<dots> = take i v @ map (\<lambda>x. x / d) (drop i v)"
      using True by (simp add: take_Suc_conv_app_nth Cons_nth_drop_Suc [symmetric])
    finally show ?thesis .
  next
    case False
    then show ?thesis using "1.prems" by (subst divide_loop.simps) simp
  qed
qed

lemma divide_loop_map: "divide_loop 0 d v = map (\<lambda>x. x / d) v"
  using divide_loop_take_drop [of 0 v d] by simp

lemma divide_hessian_eq:
  "divide_hessian n L =
     L\<lparr>Whessian_m := map (\<lambda>x. x / real_of_int (sint n)) (Whessian_m L),
       bhessian_m := map (\<lambda>x. x / real_of_int (sint n)) (bhessian_m L)\<rparr>"
  by (simp add: divide_hessian_def Let_def divide_loop_map)

text \<open>
  C6. For \<open>n \<noteq> 0\<close>, \<open>divide_hessian(n)\<close> replaces every element of \<open>Whessian_m\<close> and of
  \<open>bhessian_m\<close> by that element divided by \<open>n\<close> (a nonzero real), and leaves the
  weights, the biases, the output, the two deltas, the sizes, the links and the dynamic
  type as they were.
\<close>

theorem divide_hessian_elementwise:
  assumes "n \<noteq> 0"
  shows "Whessian_m (divide_hessian n L) = map (\<lambda>x. x / real_of_int (sint n)) (Whessian_m L)
       \<and> bhessian_m (divide_hessian n L) = map (\<lambda>x. x / real_of_int (sint n)) (bhessian_m L)
       \<and> real_of_int (sint n) \<noteq> 0
       \<and> W_m (divide_hessian n L) = W_m L \<and> b_m (divide_hessian n L) = b_m L
       \<and> output_m (divide_hessian n L) = output_m L
       \<and> prev_delta_m (divide_hessian n L) = prev_delta_m L
       \<and> prev_delta2_m (divide_hessian n L) = prev_delta2_m L
       \<and> in_size (divide_hessian n L) = in_size L \<and> out_size (divide_hessian n L) = out_size L
       \<and> next_m (divide_hessian n L) = next_m L \<and> prev_m (divide_hessian n L) = prev_m L
       \<and> dyn_type (divide_hessian n L) = dyn_type L"
proof -
  have "sint n \<noteq> 0"
    using assms by (simp add: signed_eq_0_iff)
  then have "real_of_int (sint n) \<noteq> 0"
    by (simp only: of_int_eq_0_iff not_False_eq_True)
  then show ?thesis
    by (simp add: divide_hessian_eq in_size_def out_size_def del: of_int_sint)
qed

theorem divide_hessian_elementwise_witness:
  "(4::cint) \<noteq> 0
   \<and> Whessian_m (divide_hessian 4 (L2\<lparr>Whessian_m := [8, 2], bhessian_m := [-6]\<rparr>)) = [2, 1/2]
   \<and> bhessian_m (divide_hessian 4 (L2\<lparr>Whessian_m := [8, 2], bhessian_m := [-6]\<rparr>)) = [-3/2]
   \<and> W_m (divide_hessian 4 (L2\<lparr>Whessian_m := [8, 2], bhessian_m := [-6]\<rparr>)) = W_m L2"
  using divide_hessian_elementwise [of 4 "L2\<lparr>Whessian_m := [8, 2], bhessian_m := [-6]\<rparr>"]
  by simp

text \<open>
  C7. For every layer and every random source, \<open>init_weight\<close> followed by
  \<open>divide_hessian(1)\<close> leaves \<open>Whessian_m\<close> and \<open>bhessian_m\<close> at their lengths with every
  element equal to 0.
\<close>

theorem init_then_divide_by_one_zero:
  "Whessian_m (divide_hessian 1 (fst (init_weight L g))) = replicate (length (Whessian_m L)) 0
   \<and> bhessian_m (divide_hessian 1 (fst (init_weight L g))) = replicate (length (bhessian_m L)) 0
   \<and> (\<forall>x \<in> set (Whessian_m (divide_hessian 1 (fst (init_weight L g)))). x = 0)
   \<and> (\<forall>x \<in> set (bhessian_m (divide_hessian 1 (fst (init_weight L g)))). x = 0)"
  by (simp add: divide_hessian_eq init_weight_fields)

theorem init_then_divide_by_one_zero_witness:
  "Whessian_m (divide_hessian 1 (fst (init_weight (L2\<lparr>Whessian_m := [8, 2], bhessian_m := [-6]\<rparr>) ends)))
     = [0, 0]
   \<and> bhessian_m (divide_hessian 1 (fst (init_weight (L2\<lparr>Whessian_m := [8, 2], bhessian_m := [-6]\<rparr>) ends)))
     = [0]"
  using init_then_divide_by_one_zero [of "L2\<lparr>Whessian_m := [8, 2], bhessian_m := [-6]\<rparr>" ends]
  by (simp add: numeral_2_eq_2)

subsection \<open>The size equalities\<close>











subsection \<open>The sentinel's size queries\<close>

text \<open>
  C9. For a layer whose class is \<open>input_layer\<close>, \<open>fan_in_size()\<close> is 1 and
  \<open>connection_size()\<close> is \<open>in_size()\<close>; the divisor \<open>sqrt (fan_in_size())\<close> of
  \<open>init_weight\<close> is 1, not 0, the weight base is 0.5, and \<open>init_weight\<close> leaves the
  fan-in at 1.
\<close>

theorem sentinel_fan_in_one:
  assumes "dyn_type L = Input_layer"
  shows "fan_in_size L = 1 \<and> connection_size L = in_size L
       \<and> sqrt (real_of_int (sint (fan_in_size L))) = 1
       \<and> weight_base L = 0.5
       \<and> fan_in_size (fst (init_weight L g)) = 1"
  using assms
  by (simp add: fan_in_size_def connection_size_def in_size_def weight_base_def init_weight_frame)

theorem sentinel_fan_in_one_witness:
  "dyn_type sentinel = Input_layer \<and> fan_in_size sentinel = 1
   \<and> connection_size sentinel = in_size sentinel
   \<and> sqrt (real_of_int (sint (fan_in_size sentinel))) = 1"
proof -
  have "dyn_type sentinel = Input_layer" by (simp add: net_defs)
  then show ?thesis using sentinel_fan_in_one [of sentinel] by blast
qed

subsection \<open>layers::add\<close>

lemma connect_raised_mismatch:
  "connect t p h = Raised Dimension_mismatch h' \<Longrightarrow> h' = h"
  by (auto simp: connect_def link_def Let_def split: option.splits if_splits prod.splits)

lemma add_nonempty:
  assumes "\<not> empty c"
  shows "add p (c, h) =
           (case tail_m c of
              None \<Rightarrow> Returned () (c\<lparr>tail_m := p\<rparr>, h)
            | Some t \<Rightarrow>
                (case connect t p h of
                   Raised e h' \<Rightarrow> Raised e (c, h')
                 | Returned u h' \<Rightarrow> Returned () (c\<lparr>tail_m := p\<rparr>, h')))"
  using assms by (auto simp: add_def empty_def)

text \<open>
  C10. On a container that is not empty: if \<open>add(L)\<close> raises the dimension mismatch, the
  container (head and tail) and the store are what they were before the call, so \<open>L\<close> has
  not been appended; and whenever the \<open>connect\<close> of the tail to \<open>L\<close> raises the dimension
  mismatch, \<open>add(L)\<close> raises it too.
\<close>

theorem add_mismatch_leaves_chain:
  assumes "\<not> empty c"
  shows "(\<forall>s'. add p (c, h) = Raised Dimension_mismatch s' \<longrightarrow> s' = (c, h))
       \<and> (\<forall>t h'. tail_m c = Some t \<and> connect t p h = Raised Dimension_mismatch h'
             \<longrightarrow> add p (c, h) = Raised Dimension_mismatch (c, h))"
proof (intro conjI allI impI)
  fix s'
  assume r: "add p (c, h) = Raised Dimension_mismatch s'"
  show "s' = (c, h)"
  proof (cases "tail_m c")
    case None
    then show ?thesis using r add_nonempty [OF assms, of p h] by simp
  next
    case (Some t)
    show ?thesis
    proof (cases "connect t p h")
      case (Raised e h')
      then have "e = Dimension_mismatch" and s': "s' = (c, h')"
        using r Some add_nonempty [OF assms, of p h] by simp_all
      then have "h' = h"
        using Raised connect_raised_mismatch by blast
      then show ?thesis using s' by simp
    next
      case (Returned u h')
      then show ?thesis using r Some add_nonempty [OF assms, of p h] by simp
    qed
  qed
next
  fix t h'
  assume a: "tail_m c = Some t \<and> connect t p h = Raised Dimension_mismatch h'"
  then have "h' = h" using connect_raised_mismatch by blast
  then show "add p (c, h) = Raised Dimension_mismatch (c, h)"
    using a add_nonempty [OF assms, of p h] by simp
qed

theorem add_mismatch_leaves_chain_witness:
  "\<not> empty (fst net_chain)
   \<and> add (Some 1) net_chain = Raised Dimension_mismatch net_chain"
proof -
  have e: "\<not> empty (fst net_chain)"
    by (simp add: empty_def net_chain_def)
  have "tail_m (fst net_chain) = Some 2
        \<and> connect 2 (Some 1) (snd net_chain) = Raised Dimension_mismatch (snd net_chain)"
    by (simp add: connect_def deref_def net_chain_def net_defs in_size_def out_size_def)
  then show ?thesis
    using e add_mismatch_leaves_chain [OF e, of "Some 1" "snd net_chain"] by simp
qed

end
